theory Spec2Isabelle
  imports Main "HOL-Library.Finite_Map" "HOL-Library.Sublist"
begin

section \<open>File organizer: classification, transfer, conflict resolution and undo journal\<close>

text \<open>
  This theory embeds the engine of \<^verbatim>\<open>file_organizer.py\<close>: \<^verbatim>\<open>build_ext_index\<close>,
  \<^verbatim>\<open>unique_path\<close>, \<^verbatim>\<open>resolve_conflict\<close>, \<^verbatim>\<open>log_undo_operation\<close>, \<^verbatim>\<open>do_transfer\<close>, the six
  \<^verbatim>\<open>organize_by_*\<close> functions, \<^verbatim>\<open>clear_undo_log\<close>, \<^verbatim>\<open>perform_undo\<close> and
  \<^verbatim>\<open>process_directory\<close>.

  The Python code works on the file system through \<^verbatim>\<open>pathlib\<close> and \<^verbatim>\<open>shutil\<close>. Their
  behaviour is written out here for a POSIX file system that holds regular files and
  directories:
  \<^item> a path is the list of its components below the root; the working directory is the
    root, so \<^verbatim>\<open>resolve()\<close> is the identity; there are no symbolic links;
  \<^item> text joined onto a path (\<^verbatim>\<open>dest_root / cat / file.name\<close>) is parsed as \<^verbatim>\<open>pathlib\<close>
    parses it: it is cut at the slashes, and text that starts with a slash replaces the
    path; the name \<^verbatim>\<open>..\<close> is kept as a name, as \<^verbatim>\<open>pathlib\<close> keeps it, and is not resolved;
  \<^item> \<^verbatim>\<open>Path.exists()\<close> answers and never raises: no name is longer than the system
    allows and every directory can be searched;
  \<^item> an operation fails only for a structural reason (a missing source, a regular file
    where a directory is needed, an occupied target); permissions, full disks and other
    faults of the environment are not part of the state;
  \<^item> strings are lists of 8-bit characters; case conversion and the character classes
    are those of Python on ASCII;
  \<^item> \<^verbatim>\<open>undo.log\<close> is a state component of its own (its text, or \<open>None\<close> while the file
    does not exist): it is not one of the paths being organised;
  \<^item> the calls of \<^verbatim>\<open>logger\<close> are recorded, in order, in the state;
  \<^item> progress callbacks are not passed (\<^verbatim>\<open>on_progress\<close> absent), and the value that
    \<^verbatim>\<open>cancel_event.is_set()\<close> gives at each poll is an input.
\<close>

subsection \<open>Strings\<close>

definition LF :: char where "LF = CHR 0x0A"
definition CR :: char where "CR = CHR 0x0D"

definition ascii_uppercase :: string where
  "ascii_uppercase = ''ABCDEFGHIJKLMNOPQRSTUVWXYZ''"

definition ascii_lowercase :: string where
  "ascii_lowercase = ''abcdefghijklmnopqrstuvwxyz''"

text \<open>\<^verbatim>\<open>str.isalpha()\<close> on one character.\<close>

definition isalpha :: "char \<Rightarrow> bool" where
  "isalpha c = (c \<in> set (ascii_uppercase @ ascii_lowercase))"

text \<open>\<^verbatim>\<open>str.isspace()\<close> on one character: TAB, LF, VT, FF, CR, FS, GS, RS, US and the blank.\<close>

definition whitespace :: string where
  "whitespace = [CHR 0x09, CHR 0x0A, CHR 0x0B, CHR 0x0C, CHR 0x0D,
                 CHR 0x1C, CHR 0x1D, CHR 0x1E, CHR 0x1F, CHR 0x20]"

definition isspace :: "char \<Rightarrow> bool" where
  "isspace c = (c \<in> set whitespace)"

definition lower_char :: "char \<Rightarrow> char" where
  "lower_char c = (case map_of (zip ascii_uppercase ascii_lowercase) c of Some l \<Rightarrow> l | None \<Rightarrow> c)"

definition upper_char :: "char \<Rightarrow> char" where
  "upper_char c = (case map_of (zip ascii_lowercase ascii_uppercase) c of Some u \<Rightarrow> u | None \<Rightarrow> c)"

text \<open>\<^verbatim>\<open>str.lower()\<close> and \<^verbatim>\<open>str.upper()\<close>.\<close>

definition lower :: "string \<Rightarrow> string" where
  "lower s = map lower_char s"

definition upper :: "string \<Rightarrow> string" where
  "upper s = map upper_char s"

text \<open>\<^verbatim>\<open>str.strip()\<close>: white space removed at both ends.\<close>

definition strip :: "string \<Rightarrow> string" where
  "strip s = rev (dropWhile isspace (rev (dropWhile isspace s)))"

text \<open>
  \<^verbatim>\<open>s.split(sep)\<close> for a one-character separator: the fields between the separators,
  empty ones kept, so that the result is never the empty list.
\<close>

fun split_on :: "char \<Rightarrow> string \<Rightarrow> string list" where
  "split_on d [] = [[]]"
| "split_on d (c # cs) =
     (if c = d then [] # split_on d cs
      else (case split_on d cs of
              field # fields \<Rightarrow> (c # field) # fields
            | [] \<Rightarrow> [[c]]))"

text \<open>\<^verbatim>\<open>str(i)\<close> for a natural number, and the format \<^verbatim>\<open>{n:02d}\<close>.\<close>

definition digit_char :: "nat \<Rightarrow> char" where
  "digit_char d = ''0123456789'' ! d"

fun str_nat :: "nat \<Rightarrow> string" where
  "str_nat n = (if n < 10 then [digit_char n] else str_nat (n div 10) @ [digit_char (n mod 10)])"

declare str_nat.simps [simp del]

definition fmt_02d :: "nat \<Rightarrow> string" where
  "fmt_02d n = (if n < 10 then CHR ''0'' # str_nat n else str_nat n)"

text \<open>
  \<^verbatim>\<open>f.readlines()\<close> of a file opened in text mode: the text is cut after each line
  break, where LF, CR and CR LF each count as one break and are read as LF; a last line
  without a break is kept. \<open>cur\<close> is the line being read and \<open>cr\<close> tells that the
  character before was a CR.
\<close>

fun readlines_from :: "string \<Rightarrow> bool \<Rightarrow> string \<Rightarrow> string list" where
  "readlines_from cur cr [] = (if cur = [] then [] else [cur])"
| "readlines_from cur cr (c # cs) =
     (if c = LF then
        (if cr then readlines_from cur False cs
         else (cur @ [LF]) # readlines_from [] False cs)
      else if c = CR then (cur @ [LF]) # readlines_from [] True cs
      else readlines_from (cur @ [c]) False cs)"

definition readlines :: "string \<Rightarrow> string list" where
  "readlines text = readlines_from [] False text"

subsection \<open>Paths\<close>

type_synonym path = "string list"

text \<open>\<^verbatim>\<open>path.name\<close>, \<^verbatim>\<open>path.parent\<close> (the root is its own parent) and \<^verbatim>\<open>path / name\<close>.\<close>

definition name :: "path \<Rightarrow> string" where
  "name p = (if p = [] then [] else last p)"

definition parent :: "path \<Rightarrow> path" where
  "parent p = butlast p"

definition join :: "path \<Rightarrow> string \<Rightarrow> path" where
  "join p c = p @ [c]"

text \<open>
  \<^verbatim>\<open>name.rfind('.')\<close>, as \<open>None\<close> for Python's -1, and \<^verbatim>\<open>path.suffix\<close> and \<^verbatim>\<open>path.stem\<close> as
  \<^verbatim>\<open>pathlib\<close> computes them: the name is cut at its last dot when that dot is neither the
  first nor the last character.
\<close>

fun rfind :: "char \<Rightarrow> string \<Rightarrow> nat option" where
  "rfind d [] = None"
| "rfind d (c # cs) =
     (case rfind d cs of
        Some i \<Rightarrow> Some (Suc i)
      | None \<Rightarrow> (if c = d then Some 0 else None))"

definition suffix_of :: "path \<Rightarrow> string" where
  "suffix_of p =
     (case rfind CHR ''.'' (name p) of
        Some i \<Rightarrow> (if 0 < i \<and> i + 1 < length (name p) then drop i (name p) else [])
      | None \<Rightarrow> [])"

definition stem :: "path \<Rightarrow> string" where
  "stem p =
     (case rfind CHR ''.'' (name p) of
        Some i \<Rightarrow> (if 0 < i \<and> i + 1 < length (name p) then take i (name p) else name p)
      | None \<Rightarrow> name p)"

text \<open>
  \<^verbatim>\<open>str(path)\<close> of an absolute path and \<^verbatim>\<open>Path(text)\<close>: the text is cut at every slash,
  and empty components and single dots are dropped.
\<close>

definition path_str :: "path \<Rightarrow> string" where
  "path_str p = (if p = [] then ''/'' else concat (map (\<lambda>c. CHR ''/'' # c) p))"

definition Path :: "string \<Rightarrow> path" where
  "Path text = filter (\<lambda>c. c \<noteq> [] \<and> c \<noteq> ''.'') (split_on CHR ''/'' text)"

text \<open>
  \<^verbatim>\<open>path / text\<close> for any text: the text is parsed, and absolute text replaces the path.
  (\<open>join\<close> above is the same operation for a text that is one name, as the names that
  \<^verbatim>\<open>unique_path\<close> and \<^verbatim>\<open>shutil\<close> build from a component of a path are.)
\<close>

definition is_absolute :: "string \<Rightarrow> bool" where
  "is_absolute text = (text \<noteq> [] \<and> hd text = CHR ''/'')"

definition joinpath :: "path \<Rightarrow> string \<Rightarrow> path" where
  "joinpath p text = (if is_absolute text then Path text else p @ Path text)"


subsection \<open>The file system\<close>

text \<open>
  A regular file has its bytes and its modification time; the metadata of directories is
  not tracked. The root is a directory that always exists.
\<close>

datatype node = File (content: string) (mtime: int) | Dir

type_synonym filesystem = "(path, node) fmap"

datatype oserror =
    FileNotFoundError | FileExistsError | NotADirectoryError | IsADirectoryError
  | InvalidArgument | DirectoryNotEmpty | SameFileError | ShutilError

definition node_at :: "filesystem \<Rightarrow> path \<Rightarrow> node option" where
  "node_at fs p = (if p = [] then Some Dir else fmlookup fs p)"

definition exists :: "filesystem \<Rightarrow> path \<Rightarrow> bool" where
  "exists fs p = (node_at fs p \<noteq> None)"

definition is_file :: "filesystem \<Rightarrow> path \<Rightarrow> bool" where
  "is_file fs p = (case node_at fs p of Some (File c m) \<Rightarrow> True | _ \<Rightarrow> False)"

definition is_dir :: "filesystem \<Rightarrow> path \<Rightarrow> bool" where
  "is_dir fs p = (node_at fs p = Some Dir)"

text \<open>\<^verbatim>\<open>path.stat()\<close>: \<open>None\<close> when the path does not exist (the call raises).\<close>

record stat_result =
  st_size :: nat
  st_mtime :: int

definition stat :: "filesystem \<Rightarrow> path \<Rightarrow> stat_result option" where
  "stat fs p =
     (case node_at fs p of
        None \<Rightarrow> None
      | Some (File c m) \<Rightarrow> Some \<lparr>st_size = length c, st_mtime = m\<rparr>
      | Some Dir \<Rightarrow> Some \<lparr>st_size = 0, st_mtime = 0\<rparr>)"

text \<open>\<^verbatim>\<open>why_no_dir fs p\<close> is the error of a system call that needs \<open>p\<close> to be a directory.\<close>

definition why_no_dir :: "filesystem \<Rightarrow> path \<Rightarrow> oserror" where
  "why_no_dir fs p = (if exists fs p then NotADirectoryError else FileNotFoundError)"

text \<open>\<^verbatim>\<open>os.mkdir\<close> and \<^verbatim>\<open>os.unlink\<close>.\<close>

definition os_mkdir :: "filesystem \<Rightarrow> path \<Rightarrow> oserror + filesystem" where
  "os_mkdir fs p =
     (if \<not> is_dir fs (parent p) then Inl (why_no_dir fs (parent p))
      else if exists fs p then Inl FileExistsError
      else Inr (fmupd p Dir fs))"

definition os_unlink :: "filesystem \<Rightarrow> path \<Rightarrow> oserror + filesystem" where
  "os_unlink fs p =
     (if is_file fs p then Inr (fmdrop p fs)
      else Inl (if exists fs p then IsADirectoryError else FileNotFoundError))"

text \<open>
  \<^verbatim>\<open>Path.mkdir(parents=True, exist_ok=True)\<close>, as \<^verbatim>\<open>pathlib\<close> writes it: try
  \<^verbatim>\<open>os.mkdir\<close>; on \<^verbatim>\<open>FileNotFoundError\<close> make the parent in the same way and try once
  more; any other error is passed on unless the path is a directory already.
\<close>

function mkdir :: "filesystem \<Rightarrow> path \<Rightarrow> oserror + filesystem" where
  "mkdir fs p =
     (case os_mkdir fs p of
        Inr fs' \<Rightarrow> Inr fs'
      | Inl e \<Rightarrow>
          (if e = FileNotFoundError then
             (if parent p = p then Inl e
              else
                (case mkdir fs (parent p) of
                   Inl e' \<Rightarrow> Inl e'
                 | Inr fs' \<Rightarrow>
                     (case os_mkdir fs' p of
                        Inr fs'' \<Rightarrow> Inr fs''
                      | Inl e'' \<Rightarrow>
                          (if e'' \<noteq> FileNotFoundError \<and> is_dir fs' p then Inr fs'
                           else Inl e''))))
           else if is_dir fs p then Inr fs
           else Inl e))"
  by pat_completeness auto
termination
  by (relation "measure (\<lambda>(fs, p). length p)") (auto simp: parent_def intro: diff_less)

declare mkdir.simps [simp del]

text \<open>
  A directory with all that is below it, moved to a path that is free: what
  \<^verbatim>\<open>os.rename\<close> does to a directory, and \<^verbatim>\<open>shutil.copytree\<close> followed by \<^verbatim>\<open>shutil.rmtree\<close>.
\<close>

definition move_tree :: "filesystem \<Rightarrow> path \<Rightarrow> path \<Rightarrow> filesystem" where
  "move_tree fs src dst =
     Abs_fmap (\<lambda>q. if prefix dst q then fmlookup fs (src @ drop (length dst) q)
                    else if prefix src q then None
                    else fmlookup fs q)"

text \<open>
  \<^verbatim>\<open>os.rename\<close>: the source must exist and the parent of the target must be a directory;
  a regular file replaces a regular file; a directory moves to a free path or onto an
  empty directory, never into itself. The root cannot be renamed.
\<close>

definition os_rename :: "filesystem \<Rightarrow> path \<Rightarrow> path \<Rightarrow> oserror + filesystem" where
  "os_rename fs src dst =
     (case node_at fs src of
        None \<Rightarrow> Inl FileNotFoundError
      | Some n \<Rightarrow>
          (if \<not> is_dir fs (parent dst) then Inl (why_no_dir fs (parent dst))
           else if src = [] \<or> dst = [] then Inl InvalidArgument
           else if src = dst then Inr fs
           else
             (case n of
                File c m \<Rightarrow>
                  (if is_dir fs dst then Inl IsADirectoryError
                   else Inr (fmupd dst n (fmdrop src fs)))
              | Dir \<Rightarrow>
                  (if prefix src dst then Inl InvalidArgument
                   else if is_file fs dst then Inl NotADirectoryError
                   else if \<exists>q \<in> fmdom' fs. strict_prefix dst q then Inl DirectoryNotEmpty
                   else Inr (move_tree fs src dst)))))"

text \<open>
  \<^verbatim>\<open>shutil.copy2\<close>: into a directory the copy keeps the name of the source; a regular
  file is opened for reading, then the target for writing; bytes and modification time
  are copied.
\<close>

definition copy2 :: "filesystem \<Rightarrow> path \<Rightarrow> path \<Rightarrow> oserror + filesystem" where
  "copy2 fs src dst =
     (let dst' = (if is_dir fs dst then join dst (name src) else dst) in
      if src = dst' \<and> exists fs src then Inl SameFileError
      else
        (case node_at fs src of
           None \<Rightarrow> Inl FileNotFoundError
         | Some Dir \<Rightarrow> Inl IsADirectoryError
         | Some (File c m) \<Rightarrow>
             (if \<not> is_dir fs (parent dst') then Inl (why_no_dir fs (parent dst'))
              else if is_dir fs dst' then Inl IsADirectoryError
              else Inr (fmupd dst' (File c m) fs))))"

text \<open>
  \<^verbatim>\<open>shutil.copytree(src, real_dst)\<close> followed by \<^verbatim>\<open>shutil.rmtree(src)\<close>: the target must be
  free, its missing ancestors are made, and the tree arrives below it.
\<close>

definition copytree_rmtree :: "filesystem \<Rightarrow> path \<Rightarrow> path \<Rightarrow> oserror + filesystem" where
  "copytree_rmtree fs src real_dst =
     (if exists fs real_dst then Inl FileExistsError
      else
        (case mkdir fs (parent real_dst) of
           Inl e \<Rightarrow> Inl e
         | Inr fs' \<Rightarrow> Inr (move_tree fs' src real_dst)))"

text \<open>
  \<^verbatim>\<open>shutil.move\<close>: a source moved to a directory goes into it under its own name, which
  must be free there; then \<^verbatim>\<open>os.rename\<close> is tried, and when it fails a directory is
  copied as a tree and removed, and a regular file is copied with \<^verbatim>\<open>copy2\<close> and unlinked.
\<close>

definition move :: "filesystem \<Rightarrow> path \<Rightarrow> path \<Rightarrow> oserror + filesystem" where
  "move fs src dst =
     (if is_dir fs dst \<and> src = dst then os_rename fs src dst
      else if is_dir fs dst \<and> exists fs (join dst (name src)) then Inl ShutilError
      else
       (let real_dst = (if is_dir fs dst then join dst (name src) else dst) in
        case os_rename fs src real_dst of
          Inr fs' \<Rightarrow> Inr fs'
        | Inl e \<Rightarrow>
            (if is_dir fs src then
               (if prefix src dst then Inl ShutilError
                else copytree_rmtree fs src real_dst)
             else
               (case copy2 fs src real_dst of
                  Inl e' \<Rightarrow> Inl e'
                | Inr fs' \<Rightarrow> os_unlink fs' src))))"

subsection \<open>Program state\<close>

datatype level = INFO | WARNING | ERROR

text \<open>One constructor for each message the engine logs, with the values it formats.\<close>

datatype message =
    Could_not_remove path oserror
  | Dry_run_created path path
  | Transferred string path path
  | Failed_to string path oserror
  | Could_not_get_date string
  | Could_not_get_size string
  | No_undo_log
  | Undo_moving path path
  | Undo_skip path
  | Undo_failed string
  | Cancellation_requested

record state =
  fsys :: filesystem
  undo_log :: "string option"
  logged :: "(level \<times> message) list"

definition logger :: "level \<Rightarrow> message \<Rightarrow> state \<Rightarrow> state" where
  "logger l m s = s\<lparr>logged := logged s @ [(l, m)]\<rparr>"

text \<open>The exceptions that leave the engine's functions.\<close>

datatype error =
    Unknown_conflict_policy string
  | Unknown_organization_mode string
  | IndexError

subsection \<open>Category index\<close>

text \<open>
  A category table is a dictionary in insertion order; the extensions of a category
  are listed in the order in which the loop meets them.
\<close>

type_synonym categories = "(string \<times> string list) list"

fun index_exts :: "string \<Rightarrow> string list \<Rightarrow> (string \<rightharpoonup> string) \<Rightarrow> (string \<rightharpoonup> string)" where
  "index_exts cat [] idx = idx"
| "index_exts cat (e # exts) idx =
     index_exts cat exts
       (if e \<noteq> [] then
          (let e_lower = lower e in
           if idx e_lower = None then idx(e_lower \<mapsto> cat) else idx)
        else idx)"

fun index_categories :: "categories \<Rightarrow> (string \<rightharpoonup> string) \<Rightarrow> (string \<rightharpoonup> string)" where
  "index_categories [] idx = idx"
| "index_categories ((cat, exts) # rest) idx = index_categories rest (index_exts cat exts idx)"

definition build_ext_index :: "categories \<Rightarrow> (string \<rightharpoonup> string)" where
  "build_ext_index cats = index_categories cats Map.empty"

subsection \<open>Conflict resolver\<close>

text \<open>
  The loop of \<^verbatim>\<open>unique_path\<close>, with its variables \<^verbatim>\<open>parent\<close>, \<^verbatim>\<open>stem\<close>, \<^verbatim>\<open>suffix\<close>, \<^verbatim>\<open>i\<close> and
  \<^verbatim>\<open>candidate\<close>. It ends because the file system holds finitely many paths and the
  candidates of different \<open>i\<close> differ.
\<close>

function unique_path_loop ::
  "filesystem \<Rightarrow> path \<Rightarrow> string \<Rightarrow> string \<Rightarrow> nat \<Rightarrow> path \<Rightarrow> path" where
  "unique_path_loop fs parent' stem' suffix' i candidate =
     (if exists fs candidate then
        unique_path_loop fs parent' stem' suffix' (i + 1)
          (join parent' (stem' @ '' ('' @ str_nat i @ '')'' @ suffix'))
      else candidate)"
  by pat_completeness auto
termination
proof (relation "measure (\<lambda>(fs, pa, st, su, i, c).
         2 * card {j. i \<le> j \<and> exists fs (join pa (st @ '' ('' @ str_nat j @ '')'' @ su))}
         + (if exists fs c then 1 else 0))", goal_cases)
  case 1
  show ?case by simp
next
  case (2 fs pa st su i c)
  let ?cand = "\<lambda>j. join pa (st @ '' ('' @ str_nat j @ '')'' @ su)"
  let ?T = "\<lambda>i. {j. i \<le> j \<and> exists fs (?cand j)}"
  have digit_inj: "a = b" if "a < 10" "b < 10" "digit_char a = digit_char b" for a b
  proof -
    have "distinct ''0123456789''" "length ''0123456789'' = 10" by simp_all
    with that show ?thesis unfolding digit_char_def by (metis nth_eq_iff_index_eq)
  qed
  have not_Nil: "str_nat n \<noteq> []" for n
    by (subst str_nat.simps) simp
  have small: "str_nat n = [digit_char n]" if "n < 10" for n
    using that by (subst str_nat.simps) simp
  have large: "str_nat n = str_nat (n div 10) @ [digit_char (n mod 10)]" if "\<not> n < 10" for n
    using that by (subst str_nat.simps) simp
  have str_inj: "str_nat a = str_nat b \<Longrightarrow> a = b" for a b
  proof (induction a arbitrary: b rule: str_nat.induct)
    case (1 n)
    show ?case
    proof (cases "n < 10"; cases "b < 10")
      assume "n < 10" "b < 10"
      with "1.prems" show ?thesis by (auto simp: small dest: digit_inj)
    next
      assume "n < 10" "\<not> b < 10"
      with "1.prems" not_Nil[of "b div 10"] show ?thesis
        by (cases "str_nat (b div 10)") (auto simp: small large)
    next
      assume "\<not> n < 10" "b < 10"
      with "1.prems" not_Nil[of "n div 10"] show ?thesis
        by (cases "str_nat (n div 10)") (auto simp: small large)
    next
      assume n: "\<not> n < 10" and b: "\<not> b < 10"
      with "1.prems" have e1: "str_nat (n div 10) = str_nat (b div 10)"
        and e2: "digit_char (n mod 10) = digit_char (b mod 10)" by (auto simp: large)
      from "1.IH"[OF n e1] have "n div 10 = b div 10" .
      moreover from e2 have "n mod 10 = b mod 10" by (rule digit_inj[rotated 2]) auto
      ultimately show ?thesis by (metis div_mult_mod_eq)
    qed
  qed
  have cand_inj: "inj ?cand"
  proof (rule injI)
    fix x y assume "?cand x = ?cand y"
    then have e: "str_nat x @ ('')'' @ su) = str_nat y @ ('')'' @ su)" by (simp add: join_def)
    have "length (str_nat x) = length (str_nat y)" using arg_cong[OF e, of length] by simp
    with e have "str_nat x = str_nat y" by simp
    then show "x = y" by (rule str_inj)
  qed
  have "?T i \<subseteq> ?cand -` fmdom' fs"
    by (auto simp: exists_def node_at_def join_def intro: fmdom'I)
  with cand_inj have fin: "finite (?T i)"
    by (meson finite_fmdom' finite_subset finite_vimageI)
  have sub: "?T (i + 1) \<subseteq> ?T i" by auto
  show ?case
  proof (cases "exists fs (?cand i)")
    case True
    then have "i \<in> ?T i" "i \<notin> ?T (i + 1)" by auto
    with sub have "?T (i + 1) \<subset> ?T i" by blast
    with fin have "card (?T (i + 1)) < card (?T i)" by (rule psubset_card_mono)
    with 2 True show ?thesis by simp
  next
    case False
    have "card (?T (i + 1)) \<le> card (?T i)" using fin sub by (rule card_mono)
    with 2 False show ?thesis by simp
  qed
qed

declare unique_path_loop.simps [simp del]

definition unique_path :: "filesystem \<Rightarrow> path \<Rightarrow> path" where
  "unique_path fs path = unique_path_loop fs (parent path) (stem path) (suffix_of path) 1 path"

text \<open>
  \<^verbatim>\<open>resolve_conflict\<close> returns the final destination, \<open>None\<close> for Python's \<^verbatim>\<open>None\<close>, or
  raises \<^verbatim>\<open>ValueError\<close>.
\<close>

definition resolve_conflict ::
  "path \<Rightarrow> string \<Rightarrow> state \<Rightarrow> (error + path option) \<times> state" where
  "resolve_conflict destination conflict_policy s =
     (if \<not> exists (fsys s) destination then (Inr (Some destination), s)
      else if conflict_policy = ''skip'' then (Inr None, s)
      else if conflict_policy = ''overwrite'' then
        (if is_file (fsys s) destination then
           (case os_unlink (fsys s) destination of
              Inr fs' \<Rightarrow> (Inr (Some destination), s\<lparr>fsys := fs'\<rparr>)
            | Inl e \<Rightarrow> (Inr (Some destination), logger WARNING (Could_not_remove destination e) s))
         else (Inr (Some destination), s))
      else if conflict_policy = ''rename'' then
        (Inr (Some (unique_path (fsys s) destination)), s)
      else (Inl (Unknown_conflict_policy conflict_policy), s))"

subsection \<open>Transfer executor and undo journal\<close>

definition log_undo_operation :: "string \<Rightarrow> path \<Rightarrow> path \<Rightarrow> state \<Rightarrow> state" where
  "log_undo_operation action src dst s =
     s\<lparr>undo_log := Some ((case undo_log s of None \<Rightarrow> [] | Some text \<Rightarrow> text)
          @ upper action @ ''|'' @ path_str src @ ''|'' @ path_str dst @ [LF])\<rparr>"

definition do_transfer :: "path \<Rightarrow> path \<Rightarrow> string \<Rightarrow> bool \<Rightarrow> state \<Rightarrow> bool \<times> state" where
  "do_transfer src dst action dry_run s =
     (case mkdir (fsys s) (parent dst) of
        Inl e \<Rightarrow> (False, logger ERROR (Failed_to action src e) s)
      | Inr fs1 \<Rightarrow>
          (let s1 = s\<lparr>fsys := fs1\<rparr> in
           if dry_run then (True, logger INFO (Dry_run_created src dst) s1)
           else
             (case (if action = ''move'' then move fs1 src dst else copy2 fs1 src dst) of
                Inl e \<Rightarrow> (False, logger ERROR (Failed_to action src e) s1)
              | Inr fs2 \<Rightarrow>
                  (True, log_undo_operation action src dst
                           (logger INFO (Transferred (upper action) src dst) (s1\<lparr>fsys := fs2\<rparr>))))))"

definition clear_undo_log :: "state \<Rightarrow> state" where
  "clear_undo_log s = (if undo_log s \<noteq> None then s\<lparr>undo_log := None\<rparr> else s)"

text \<open>
  \<^verbatim>\<open>perform_undo\<close> returns a dictionary with the keys \<^verbatim>\<open>total\<close>, \<^verbatim>\<open>succeeded\<close> and
  \<^verbatim>\<open>failed\<close>; \<^verbatim>\<open>process_directory\<close> returns these and \<^verbatim>\<open>processed\<close> and \<^verbatim>\<open>skipped\<close>.
\<close>

record undo_stats =
  total :: nat
  succeeded :: nat
  failed :: nat

record stats = undo_stats +
  processed :: nat
  skipped :: nat

text \<open>
  The loop of \<^verbatim>\<open>perform_undo\<close> over the lines it is given, with the counters
  \<^verbatim>\<open>succeeded\<close> and \<^verbatim>\<open>failed\<close>. A line that does not split into three fields raises
  \<^verbatim>\<open>ValueError\<close> at the unpacking, which the handler counts as a failure, as it does a
  move that raises.
\<close>

fun undo_lines :: "string list \<Rightarrow> nat \<Rightarrow> nat \<Rightarrow> state \<Rightarrow> nat \<times> nat \<times> state" where
  "undo_lines [] succeeded' failed' s = (succeeded', failed', s)"
| "undo_lines (line # rest) succeeded' failed' s =
     (case split_on CHR ''|'' (strip line) of
        [action, original_src, final_dst] \<Rightarrow>
          (let original_src = Path original_src; final_dst = Path final_dst in
           if exists (fsys s) final_dst then
             (let s1 = logger INFO (Undo_moving final_dst (parent original_src)) s in
              case move (fsys s1) final_dst original_src of
                Inr fs' \<Rightarrow> undo_lines rest (succeeded' + 1) failed' (s1\<lparr>fsys := fs'\<rparr>)
              | Inl e \<Rightarrow>
                  undo_lines rest succeeded' (failed' + 1)
                    (logger ERROR (Undo_failed (strip line)) s1))
           else undo_lines rest succeeded' failed' (logger WARNING (Undo_skip final_dst) s))
      | _ \<Rightarrow>
          undo_lines rest succeeded' (failed' + 1) (logger ERROR (Undo_failed (strip line)) s))"

definition perform_undo :: "state \<Rightarrow> undo_stats \<times> state" where
  "perform_undo s =
     (case undo_log s of
        None \<Rightarrow> (\<lparr>total = 0, succeeded = 0, failed = 0\<rparr>, logger INFO No_undo_log s)
      | Some text \<Rightarrow>
          (let lines = readlines text in
           case undo_lines (rev lines) 0 0 s of
             (succeeded', failed', s') \<Rightarrow>
               (\<lparr>total = length lines, succeeded = succeeded', failed = failed'\<rparr>,
                clear_undo_log s')))"

subsection \<open>Classifiers\<close>

text \<open>
  The keyword arguments of \<^verbatim>\<open>process_directory\<close>, which it hands on to the organizer.
  \<open>files\<close> is the list of enumerated files: the caller's \<^verbatim>\<open>files\<close> or else what
  \<^verbatim>\<open>list_files\<close> found. \<open>cancel_event\<close> gives, when an event is passed, what \<^verbatim>\<open>is_set()\<close>
  answers at the poll before the file of each index (counted from 1).
\<close>

record kwargs =
  source :: path
  dest :: path
  mode :: string
  action :: string
  conflict_policy :: string
  dry_run :: bool
  recursive :: bool
  categories :: categories
  files :: "path list"
  cancel_event :: "(nat \<Rightarrow> bool) option"

text \<open>
  Every organizer ends with the same four lines: resolve the conflict, return \<^verbatim>\<open>None\<close>
  when there is no destination, else return what \<^verbatim>\<open>do_transfer\<close> returns.
\<close>

definition resolve_and_transfer ::
  "path \<Rightarrow> path \<Rightarrow> kwargs \<Rightarrow> state \<Rightarrow> (error + bool option) \<times> state" where
  "resolve_and_transfer file dest_file kw s =
     (case resolve_conflict dest_file (conflict_policy kw) s of
        (Inl e, s') \<Rightarrow> (Inl e, s')
      | (Inr None, s') \<Rightarrow> (Inr None, s')
      | (Inr (Some final_dest), s') \<Rightarrow>
          (case do_transfer file final_dest (action kw) (dry_run kw) s' of
             (ok, s'') \<Rightarrow> (Inr (Some ok), s'')))"

definition organize_by_type ::
  "path \<Rightarrow> path \<Rightarrow> (string \<rightharpoonup> string) \<Rightarrow> kwargs \<Rightarrow> state \<Rightarrow> (error + bool option) \<times> state" where
  "organize_by_type file dest_root ext_index kw s =
     (let cat = (case ext_index (lower (suffix_of file)) of Some c \<Rightarrow> c | None \<Rightarrow> ''Others'');
          dest_file = joinpath (joinpath dest_root cat) (name file)
      in resolve_and_transfer file dest_file kw s)"

definition organize_by_name ::
  "path \<Rightarrow> path \<Rightarrow> (string \<rightharpoonup> string) \<Rightarrow> kwargs \<Rightarrow> state \<Rightarrow> (error + bool option) \<times> state" where
  "organize_by_name file dest_root ext_index kw s =
     (let dest_file = joinpath (joinpath dest_root (stem file)) (name file)
      in resolve_and_transfer file dest_file kw s)"

text \<open>
  The modification time is a number of seconds, and \<^verbatim>\<open>datetime.fromtimestamp\<close>, which
  depends on the time zone of the machine, is the parameter \<open>tz\<close>: it gives the local
  date, or \<open>None\<close> when the call raises. \<^verbatim>\<open>strftime('%B')\<close> is the English month name.
\<close>

record date =
  year :: nat
  month :: nat
  day :: nat

definition month_name :: "nat \<Rightarrow> string" where
  "month_name m =
     (if 1 \<le> m \<and> m \<le> 12 then
        [''January'', ''February'', ''March'', ''April'', ''May'', ''June'', ''July'',
         ''August'', ''September'', ''October'', ''November'', ''December''] ! (m - 1)
      else [])"

text \<open>
  In the three organizers that read the file's metadata the whole body is inside
  \<^verbatim>\<open>try\<close>, so that the handler also catches the \<^verbatim>\<open>ValueError\<close> of \<^verbatim>\<open>resolve_conflict\<close>.
\<close>

definition organize_by_date ::
  "(int \<Rightarrow> date option) \<Rightarrow> path \<Rightarrow> path \<Rightarrow> (string \<rightharpoonup> string) \<Rightarrow> kwargs \<Rightarrow> state
     \<Rightarrow> (error + bool option) \<times> state" where
  "organize_by_date tz file dest_root ext_index kw s =
     (case stat (fsys s) file of
        None \<Rightarrow> (Inr (Some False), logger ERROR (Could_not_get_date (name file)) s)
      | Some st \<Rightarrow>
          (case tz (st_mtime st) of
             None \<Rightarrow> (Inr (Some False), logger ERROR (Could_not_get_date (name file)) s)
           | Some d \<Rightarrow>
               (let dest_dir = joinpath (joinpath dest_root (str_nat (year d)))
                                 (fmt_02d (month d) @ ''-'' @ month_name (month d));
                    dest_file = joinpath dest_dir (name file)
                in case resolve_and_transfer file dest_file kw s of
                     (Inl e, s') \<Rightarrow>
                       (Inr (Some False), logger ERROR (Could_not_get_date (name file)) s')
                   | (Inr r, s') \<Rightarrow> (Inr r, s'))))"

definition organize_by_day ::
  "(int \<Rightarrow> date option) \<Rightarrow> path \<Rightarrow> path \<Rightarrow> (string \<rightharpoonup> string) \<Rightarrow> kwargs \<Rightarrow> state
     \<Rightarrow> (error + bool option) \<times> state" where
  "organize_by_day tz file dest_root ext_index kw s =
     (case stat (fsys s) file of
        None \<Rightarrow> (Inr (Some False), logger ERROR (Could_not_get_date (name file)) s)
      | Some st \<Rightarrow>
          (case tz (st_mtime st) of
             None \<Rightarrow> (Inr (Some False), logger ERROR (Could_not_get_date (name file)) s)
           | Some d \<Rightarrow>
               (let dest_dir = joinpath (joinpath (joinpath dest_root (str_nat (year d))) (fmt_02d (month d)))
                                 (fmt_02d (day d));
                    dest_file = joinpath dest_dir (name file)
                in case resolve_and_transfer file dest_file kw s of
                     (Inl e, s') \<Rightarrow>
                       (Inr (Some False), logger ERROR (Could_not_get_date (name file)) s')
                   | (Inr r, s') \<Rightarrow> (Inr r, s'))))"

text \<open>
  \<^verbatim>\<open>st_size / (1024 * 1024)\<close> is a division by a power of two, which is exact, so the
  comparisons with 1 and 100 are comparisons of the size in bytes.
\<close>

definition organize_by_size ::
  "path \<Rightarrow> path \<Rightarrow> (string \<rightharpoonup> string) \<Rightarrow> kwargs \<Rightarrow> state \<Rightarrow> (error + bool option) \<times> state" where
  "organize_by_size file dest_root ext_index kw s =
     (case stat (fsys s) file of
        None \<Rightarrow> (Inr (Some False), logger ERROR (Could_not_get_size (name file)) s)
      | Some st \<Rightarrow>
          (let cat = (if st_size st < 1024 * 1024 then ''Small (Under 1MB)''
                      else if st_size st < 100 * (1024 * 1024) then ''Medium (1-100MB)''
                      else ''Large (Over 100MB)'');
               dest_file = joinpath (joinpath dest_root cat) (name file)
           in case resolve_and_transfer file dest_file kw s of
                (Inl e, s') \<Rightarrow>
                  (Inr (Some False), logger ERROR (Could_not_get_size (name file)) s')
              | (Inr r, s') \<Rightarrow> (Inr r, s')))"

text \<open>\<^verbatim>\<open>file.stem[0]\<close> raises \<^verbatim>\<open>IndexError\<close> on an empty stem.\<close>

definition organize_by_first_letter ::
  "path \<Rightarrow> path \<Rightarrow> (string \<rightharpoonup> string) \<Rightarrow> kwargs \<Rightarrow> state \<Rightarrow> (error + bool option) \<times> state" where
  "organize_by_first_letter file dest_root ext_index kw s =
     (case stem file of
        [] \<Rightarrow> (Inl IndexError, s)
      | c # cs \<Rightarrow>
          (let first_letter = upper [c];
               cat = (if list_all isalpha first_letter then first_letter else ''#'');
               dest_file = joinpath (joinpath dest_root cat) (name file)
           in resolve_and_transfer file dest_file kw s))"

definition ORGANIZERS ::
  "(int \<Rightarrow> date option) \<Rightarrow> string \<Rightarrow>
     (path \<Rightarrow> path \<Rightarrow> (string \<rightharpoonup> string) \<Rightarrow> kwargs \<Rightarrow> state \<Rightarrow> (error + bool option) \<times> state) option" where
  "ORGANIZERS tz m =
     (if m = ''type'' then Some organize_by_type
      else if m = ''name'' then Some organize_by_name
      else if m = ''date'' then Some (organize_by_date tz)
      else if m = ''day'' then Some (organize_by_day tz)
      else if m = ''size'' then Some organize_by_size
      else if m = ''first_letter'' then Some organize_by_first_letter
      else None)"

subsection \<open>Batch orchestrator\<close>

definition is_cancelled :: "kwargs \<Rightarrow> nat \<Rightarrow> bool" where
  "is_cancelled kw idx = (case cancel_event kw of None \<Rightarrow> False | Some is_set \<Rightarrow> is_set idx)"

text \<open>The counting of one result: \<^verbatim>\<open>None\<close> is a skip, \<^verbatim>\<open>True\<close> a success, \<^verbatim>\<open>False\<close> a failure.\<close>

definition count_result :: "bool option \<Rightarrow> stats \<Rightarrow> stats" where
  "count_result result st =
     (let st1 = st\<lparr>processed := processed st + 1\<rparr> in
      case result of
        None \<Rightarrow> st1\<lparr>skipped := skipped st1 + 1\<rparr>
      | Some True \<Rightarrow> st1\<lparr>succeeded := succeeded st1 + 1\<rparr>
      | Some False \<Rightarrow> st1\<lparr>failed := failed st1 + 1\<rparr>)"

text \<open>
  The loop of \<^verbatim>\<open>process_directory\<close> from the file of index \<open>idx\<close> on. An exception of the
  organizer leaves the loop and the function; the state keeps what was done before.
\<close>

fun process_files ::
  "(path \<Rightarrow> path \<Rightarrow> (string \<rightharpoonup> string) \<Rightarrow> kwargs \<Rightarrow> state \<Rightarrow> (error + bool option) \<times> state)
     \<Rightarrow> kwargs \<Rightarrow> (string \<rightharpoonup> string) \<Rightarrow> path list \<Rightarrow> nat \<Rightarrow> stats \<Rightarrow> state
     \<Rightarrow> (error + stats) \<times> state" where
  "process_files organizer_func kw ext_index [] idx st s = (Inr st, s)"
| "process_files organizer_func kw ext_index (item # items) idx st s =
     (if is_cancelled kw idx then (Inr st, logger INFO Cancellation_requested s)
      else
        (case organizer_func item (dest kw) ext_index kw s of
           (Inl e, s') \<Rightarrow> (Inl e, s')
         | (Inr result, s') \<Rightarrow>
             process_files organizer_func kw ext_index items (idx + 1) (count_result result st) s'))"

definition process_directory ::
  "(int \<Rightarrow> date option) \<Rightarrow> kwargs \<Rightarrow> state \<Rightarrow> (error + stats) \<times> state" where
  "process_directory tz kw s =
     (case ORGANIZERS tz (mode kw) of
        None \<Rightarrow> (Inl (Unknown_organization_mode (mode kw)), s)
      | Some organizer_func \<Rightarrow>
          (let ext_index = (if mode kw = ''type'' then build_ext_index (categories kw)
                            else Map.empty)
           in process_files organizer_func kw ext_index (files kw) 1
                \<lparr>total = length (files kw), succeeded = 0, failed = 0,
                 processed = 0, skipped = 0\<rparr> s))"

subsection \<open>Example runs\<close>

text \<open>
  A source directory with two files, and a destination that already holds a file named
  like one of them.
\<close>

definition ex_fs :: filesystem where
  "ex_fs =
     fmupd [''out'', ''Documents'', ''a.txt''] (File ''old'' 1)
       (fmupd [''out'', ''Documents''] Dir
         (fmupd [''out''] Dir
           (fmupd [''src'', ''b.jpg''] (File ''img'' 7)
             (fmupd [''src'', ''a.txt''] (File ''hello'' 5)
               (fmupd [''src''] Dir fmempty)))))"

definition ex_state :: state where
  "ex_state = \<lparr>fsys = ex_fs, undo_log = None, logged = []\<rparr>"

definition ex_kwargs :: kwargs where
  "ex_kwargs =
     \<lparr>source = [''src''], dest = [''out''], mode = ''type'', action = ''move'',
      conflict_policy = ''skip'', dry_run = False, recursive = False,
      categories = [(''Images'', [''.jpg'', ''.png'']), (''Documents'', [''.txt'', ''.pdf''])],
      files = [[''src'', ''a.txt''], [''src'', ''b.jpg'']], cancel_event = None\<rparr>"

text \<open>The definitions that a run on concrete data unfolds.\<close>

lemmas string_defs =
  lower_def lower_char_def upper_def upper_char_def ascii_uppercase_def ascii_lowercase_def
  isalpha_def isspace_def whitespace_def strip_def LF_def CR_def str_nat.simps digit_char_def
  fmt_02d_def readlines_def

lemmas path_defs =
  name_def parent_def join_def suffix_of_def stem_def path_str_def Path_def is_absolute_def
  joinpath_def

lemmas fs_defs =
  node_at_def exists_def is_file_def is_dir_def stat_def why_no_dir_def os_mkdir_def
  os_unlink_def mkdir.simps os_rename_def copy2_def copytree_rmtree_def move_def

lemmas engine_defs =
  logger_def build_ext_index_def unique_path_def unique_path_loop.simps resolve_conflict_def
  log_undo_operation_def do_transfer_def clear_undo_log_def perform_undo_def
  resolve_and_transfer_def organize_by_type_def organize_by_name_def organize_by_date_def
  organize_by_day_def organize_by_size_def organize_by_first_letter_def month_name_def
  ORGANIZERS_def is_cancelled_def count_result_def process_directory_def Let_def

lemmas run_defs = string_defs path_defs fs_defs engine_defs



text \<open>
  A journal of two moves of the same file, first from \<^verbatim>\<open>/src\<close> to \<^verbatim>\<open>/mid\<close> and then from
  \<^verbatim>\<open>/mid\<close> to \<^verbatim>\<open>/out\<close>, and the file system after them.
\<close>

definition ex_chain_state :: state where
  "ex_chain_state =
     \<lparr>fsys = fmupd [''out'', ''f.txt''] (File ''data'' 3)
               (fmupd [''out''] Dir (fmupd [''mid''] Dir (fmupd [''src''] Dir fmempty))),
      undo_log = Some (''MOVE|/src/f.txt|/mid/f.txt'' @ [LF] @ ''MOVE|/mid/f.txt|/out/f.txt'' @ [LF]),
      logged = []\<rparr>"

text \<open>
  A journal of three lines: a move that can be undone, a move whose destination is gone,
  and a line that is not a record.
\<close>

definition ex_gone_state :: state where
  "ex_gone_state =
     \<lparr>fsys = fmupd [''out'', ''a.txt''] (File ''hello'' 5)
               (fmupd [''out''] Dir (fmupd [''src''] Dir fmempty)),
      undo_log = Some (''MOVE|/src/a.txt|/out/a.txt'' @ [LF] @ ''MOVE|/src/b.jpg|/out/b.jpg'' @ [LF]
                       @ ''no record'' @ [LF]),
      logged = []\<rparr>"

text \<open>The number of warnings in the log, to count the lines that the replay skips.\<close>

definition warnings :: "state \<Rightarrow> nat" where
  "warnings s = length (filter (\<lambda>e. fst e = WARNING) (logged s))"


text \<open>
  The example run under the rename policy, with a cancellation event that is set after
  the first file has been processed.
\<close>

definition ex_kwargs_cancel :: kwargs where
  "ex_kwargs_cancel =
     ex_kwargs\<lparr>conflict_policy := ''rename'', cancel_event := Some (\<lambda>idx. 2 \<le> idx)\<rparr>"






section \<open>Properties\<close>

subsection \<open>File system\<close>

lemma fmlookup_move_tree:
  "fmlookup (move_tree fs src dst) q =
     (if prefix dst q then fmlookup fs (src @ drop (length dst) q)
      else if prefix src q then None
      else fmlookup fs q)"
proof -
  let ?m = "\<lambda>q. if prefix dst q then fmlookup fs (src @ drop (length dst) q)
                 else if prefix src q then None
                 else fmlookup fs q"
  have "dom ?m \<subseteq> (\<lambda>r. dst @ drop (length src) r) ` fmdom' fs \<union> fmdom' fs"
  proof
    fix q
    assume "q \<in> dom ?m"
    then obtain n where n: "?m q = Some n" by auto
    show "q \<in> (\<lambda>r. dst @ drop (length src) r) ` fmdom' fs \<union> fmdom' fs"
    proof (cases "prefix dst q")
      case True
      then obtain r where r: "q = dst @ r" by (auto simp: prefix_def)
      with n have "fmlookup fs (src @ r) = Some n" by simp
      then have "src @ r \<in> fmdom' fs" by (rule fmdom'I)
      moreover have "q = dst @ drop (length src) (src @ r)" using r by simp
      ultimately show ?thesis by blast
    next
      case False
      with n have "fmlookup fs q = Some n" by (auto split: if_splits)
      then show ?thesis by (auto intro: fmdom'I)
    qed
  qed
  then have "finite (dom ?m)" by (rule finite_subset) simp
  then show ?thesis unfolding move_tree_def by (simp add: Abs_fmap_inverse)
qed

lemma os_mkdir_Inr:
  "os_mkdir fs p = Inr fs' \<Longrightarrow> fs' = fmupd p Dir fs \<and> node_at fs p = None \<and> p \<noteq> []"
  by (auto simp: os_mkdir_def exists_def node_at_def split: if_splits)

lemma node_at_fmupd:
  "p \<noteq> [] \<Longrightarrow> node_at (fmupd p n fs) q = (if q = p then Some n else node_at fs q)"
  by (auto simp: node_at_def)

lemma node_at_fmdrop:
  "p \<noteq> [] \<Longrightarrow> node_at (fmdrop p fs) q = (if q = p then None else node_at fs q)"
  by (auto simp: node_at_def)

lemma prefix_parent: "prefix (parent p) p"
  by (cases p rule: rev_cases) (simp_all add: parent_def)




lemma mkdir_frame:
  "mkdir fs p = Inr fs' \<Longrightarrow>
     node_at fs' q = node_at fs q \<or>
     (node_at fs q = None \<and> node_at fs' q = Some Dir \<and> prefix q p)"
proof (induction fs p arbitrary: fs' rule: mkdir.induct)
  case (1 fs p)
  show ?case
  proof (cases "os_mkdir fs p")
    case (Inr fs1)
    with "1.prems" have "fs' = fs1" by (subst (asm) mkdir.simps) simp
    with Inr os_mkdir_Inr[OF Inr] show ?thesis by (auto simp: node_at_fmupd)
  next
    case (Inl e)
    show ?thesis
    proof (cases "e = FileNotFoundError")
      case False
      with Inl "1.prems" have "fs' = fs" by (subst (asm) mkdir.simps) (simp split: if_splits)
      then show ?thesis by simp
    next
      case True
      with Inl "1.prems" obtain fs1 where
        np: "parent p \<noteq> p" and m1: "mkdir fs (parent p) = Inr fs1" and
        m2: "(case os_mkdir fs1 p of Inr fs'' \<Rightarrow> Inr fs''
              | Inl e'' \<Rightarrow> if e'' \<noteq> FileNotFoundError \<and> is_dir fs1 p then Inr fs1 else Inl e'') = Inr fs'"
        by (subst (asm) mkdir.simps) (auto split: if_splits sum.splits)
      from "1.IH"[OF Inl True np m1]
      have ih: "node_at fs1 q = node_at fs q \<or>
            (node_at fs q = None \<and> node_at fs1 q = Some Dir \<and> prefix q (parent p))" .
      note pp = prefix_parent[of p]
      show ?thesis
      proof (cases "os_mkdir fs1 p")
        case (Inr fs2)
        with m2 have "fs' = fs2" by simp
        with os_mkdir_Inr[OF Inr] ih pp show ?thesis
          by (auto simp: node_at_fmupd dest: prefix_order.trans)
      next
        case (Inl e2)
        with m2 have "fs' = fs1" by (simp split: if_splits)
        with ih pp show ?thesis by (auto dest: prefix_order.trans)
      qed
    qed
  qed
qed



lemma is_file_iff: "is_file fs p \<longleftrightarrow> (\<exists>c m. node_at fs p = Some (File c m))"
  by (auto simp: is_file_def split: option.splits node.splits)

lemma is_file_not_root: "is_file fs p \<Longrightarrow> p \<noteq> []"
  by (auto simp: is_file_def node_at_def)


lemma os_rename_file_frame:
  assumes "is_file fs src" "os_rename fs src dst = Inr fs'" "q \<noteq> src" "q \<noteq> dst"
  shows "node_at fs' q = node_at fs q"
  using assms
  by (auto simp: os_rename_def is_file_iff node_at_fmupd node_at_fmdrop split: if_splits)

lemma copy2_frame:
  assumes "copy2 fs src dst = Inr fs'" "\<not> prefix dst q"
  shows "node_at fs' q = node_at fs q"
proof -
  let ?d = "if is_dir fs dst then join dst (name src) else dst"
  have pd: "prefix dst ?d" by (simp add: join_def)
  with assms(2) have "q \<noteq> ?d" by auto
  moreover from assms(1) have "fs' = fmupd ?d (the (node_at fs src)) fs \<and> ?d \<noteq> []"
    by (auto simp: copy2_def Let_def exists_def is_dir_def node_at_def join_def split: if_splits option.splits node.splits)
  ultimately show ?thesis by (simp add: node_at_fmupd)
qed

lemma move_file_frame:
  assumes f: "is_file fs src" and mv: "move fs src dst = Inr fs'" and q: "q \<noteq> src" "\<not> prefix dst q"
  shows "node_at fs' q = node_at fs q"
proof -
  let ?d = "if is_dir fs dst then join dst (name src) else dst"
  have pd: "prefix dst ?d" by (simp add: join_def)
  with q have qd: "q \<noteq> ?d" by auto
  from f have nd: "\<not> is_dir fs src" by (auto simp: is_file_iff is_dir_def)
  from f have sne: "src \<noteq> []" by (rule is_file_not_root)
  from f nd have ne: "\<not> (is_dir fs dst \<and> src = dst)" by auto
  show ?thesis
  proof (cases "os_rename fs src ?d")
    case (Inr fs1)
    with mv ne have "fs' = fs1" by (auto simp: move_def Let_def split: if_splits)
    with os_rename_file_frame[OF f Inr q(1) qd] show ?thesis by simp
  next
    case (Inl e)
    with mv ne nd obtain fs1 where c: "copy2 fs src ?d = Inr fs1" and u: "os_unlink fs1 src = Inr fs'"
      by (auto simp: move_def Let_def split: if_splits sum.splits)
    have "\<not> prefix ?d q" using pd q(2) by (meson prefix_order.trans)
    from copy2_frame[OF c this] have "node_at fs1 q = node_at fs q" .
    moreover from u have "fs' = fmdrop src fs1" by (auto simp: os_unlink_def split: if_splits)
    ultimately show ?thesis using q(1) sne by (simp add: node_at_fmdrop)
  qed
qed

subsection \<open>Joining text onto a path\<close>








subsection \<open>Category index\<close>




subsection \<open>Conflict resolver\<close>

lemma str_nat_1: "str_nat (Suc 0) = ''1''"
  by (simp add: str_nat.simps digit_char_def)

lemma str_nat_2: "str_nat (Suc (Suc 0)) = ''2''"
  by (simp add: str_nat.simps digit_char_def)

lemma unique_path_loop_stop:
  "\<not> exists fs c \<Longrightarrow> unique_path_loop fs pa st su i c = c"
  by (subst unique_path_loop.simps) simp

lemma unique_path_loop_step:
  "exists fs c \<Longrightarrow>
     unique_path_loop fs pa st su i c
       = unique_path_loop fs pa st su (i + 1) (join pa (st @ '' ('' @ str_nat i @ '')'' @ su))"
  by (subst unique_path_loop.simps) simp

lemma unique_path_free: "\<not> exists fs p \<Longrightarrow> unique_path fs p = p"
  by (simp add: unique_path_def unique_path_loop_stop)

lemma unique_path_first:
  assumes "exists fs p" "\<not> exists fs (join (parent p) (stem p @ '' (1)'' @ suffix_of p))"
  shows "unique_path fs p = join (parent p) (stem p @ '' (1)'' @ suffix_of p)"
proof -
  have "unique_path fs p = unique_path_loop fs (parent p) (stem p) (suffix_of p) (1 + 1)
          (join (parent p) (stem p @ '' ('' @ str_nat 1 @ '')'' @ suffix_of p))"
    unfolding unique_path_def using assms(1) by (rule unique_path_loop_step)
  also have "\<dots> = join (parent p) (stem p @ '' ('' @ str_nat 1 @ '')'' @ suffix_of p)"
    using assms(2) by (intro unique_path_loop_stop) (simp add: str_nat_1)
  finally show ?thesis by (simp add: str_nat_1)
qed

lemma unique_path_second:
  assumes "exists fs p" "exists fs (join (parent p) (stem p @ '' (1)'' @ suffix_of p))"
    "\<not> exists fs (join (parent p) (stem p @ '' (2)'' @ suffix_of p))"
  shows "unique_path fs p = join (parent p) (stem p @ '' (2)'' @ suffix_of p)"
proof -
  have "unique_path fs p = unique_path_loop fs (parent p) (stem p) (suffix_of p) (1 + 1)
          (join (parent p) (stem p @ '' ('' @ str_nat 1 @ '')'' @ suffix_of p))"
    unfolding unique_path_def using assms(1) by (rule unique_path_loop_step)
  also have "\<dots> = unique_path_loop fs (parent p) (stem p) (suffix_of p) (1 + 1 + 1)
          (join (parent p) (stem p @ '' ('' @ str_nat (1 + 1) @ '')'' @ suffix_of p))"
    using assms(2) by (intro unique_path_loop_step) (simp add: str_nat_1)
  also have "\<dots> = join (parent p) (stem p @ '' ('' @ str_nat (1 + 1) @ '')'' @ suffix_of p)"
    using assms(3) by (intro unique_path_loop_stop) (simp add: str_nat_2)
  finally show ?thesis by (simp add: str_nat_2)
qed

lemma unique_path_loop_not_exists:
  "\<not> exists fs (unique_path_loop fs pa st su i c)"
proof (induction fs pa st su i c rule: unique_path_loop.induct)
  case (1 fs pa st su i c)
  then show ?case by (cases "exists fs c") (simp_all add: unique_path_loop_step unique_path_loop_stop)
qed

lemma unique_path_not_exists: "\<not> exists fs (unique_path fs p)"
  by (simp add: unique_path_def unique_path_loop_not_exists)

lemma resolve_conflict_rename:
  "exists (fsys s) p \<Longrightarrow> resolve_conflict p ''rename'' s = (Inr (Some (unique_path (fsys s) p)), s)"
  by (simp add: resolve_conflict_def)

subsection \<open>Transfer executor\<close>



lemma mkdir_keeps_node:
  assumes "mkdir fs p = Inr fs1" "node_at fs q = Some n"
  shows "node_at fs1 q = Some n"
  using mkdir_frame[OF assms(1), of q] assms(2) by auto


subsection \<open>Undo journal\<close>

lemma undo_lines_Cons:
  "undo_lines (line # rest) su fa s
     = (case undo_lines [line] su fa s of (su1, fa1, s1) \<Rightarrow> undo_lines rest su1 fa1 s1)"
  by (simp add: Let_def split: list.splits sum.splits)

lemma undo_lines_append:
  "undo_lines (xs @ ys) su fa s
     = (case undo_lines xs su fa s of (su1, fa1, s1) \<Rightarrow> undo_lines ys su1 fa1 s1)"
proof (induction xs arbitrary: su fa s)
  case Nil
  show ?case by simp
next
  case (Cons x xs)
  have "undo_lines ((x # xs) @ ys) su fa s
          = (case undo_lines [x] su fa s of (su1, fa1, s1) \<Rightarrow> undo_lines (xs @ ys) su1 fa1 s1)"
    by (simp only: append_Cons undo_lines_Cons[of x "xs @ ys"])
  also have "\<dots> = (case undo_lines [x] su fa s of (su1, fa1, s1) \<Rightarrow>
                    (case undo_lines xs su1 fa1 s1 of (su2, fa2, s2) \<Rightarrow> undo_lines ys su2 fa2 s2))"
    by (simp only: Cons.IH)
  also have "\<dots> = (case undo_lines (x # xs) su fa s of (su1, fa1, s1) \<Rightarrow> undo_lines ys su1 fa1 s1)"
    by (subst (2) undo_lines_Cons) (simp split: prod.splits)
  finally show ?case .
qed

lemma LF_neq_CR: "LF \<noteq> CR"
  by (simp add: LF_def CR_def)

lemma readlines_from_append_LF:
  "(cr \<longrightarrow> cur = []) \<Longrightarrow>
     readlines_from cur cr (a @ LF # b) = readlines_from cur cr (a @ [LF]) @ readlines_from [] False b"
proof (induction a arbitrary: cur cr)
  case Nil
  then show ?case by (cases cr) simp_all
next
  case (Cons c a)
  consider "c = LF" "cr" | "c = LF" "\<not> cr" | "c = CR" | "c \<noteq> LF" "c \<noteq> CR" by blast
  then show ?case
  proof cases
    case 1
    with Cons.IH[of False cur] show ?thesis by simp
  next
    case 2
    with Cons.IH[of False "[]"] show ?thesis by simp
  next
    case 3
    with Cons.IH[of True "[]"] LF_neq_CR show ?thesis by simp
  next
    case 4
    with Cons.IH[of False "cur @ [c]"] show ?thesis by simp
  qed
qed

lemma readlines_after_break:
  "readlines (old @ LF # new) = readlines (old @ [LF]) @ readlines new"
  unfolding readlines_def by (rule readlines_from_append_LF) simp

lemma readlines_from_no_break:
  "LF \<notin> set t \<Longrightarrow> CR \<notin> set t \<Longrightarrow> readlines_from cur False (t @ [LF]) = [cur @ t @ [LF]]"
proof (induction t arbitrary: cur)
  case Nil
  show ?case by simp
next
  case (Cons c t)
  then have "c \<noteq> LF" "c \<noteq> CR" "LF \<notin> set t" "CR \<notin> set t" by auto
  with Cons.IH[of "cur @ [c]"] show ?case by simp
qed

lemma readlines_one_line:
  "LF \<notin> set t \<Longrightarrow> CR \<notin> set t \<Longrightarrow> readlines (t @ [LF]) = [t @ [LF]]"
  by (simp add: readlines_def readlines_from_no_break)

lemma readlines_appended_record:
  assumes "old = [] \<or> last old = LF" "LF \<notin> set record" "CR \<notin> set record"
  shows "readlines (old @ record @ [LF]) = readlines old @ [record @ [LF]]"
proof (cases "old = []")
  case True
  with assms show ?thesis by (simp add: readlines_one_line) (simp add: readlines_def)
next
  case False
  with assms(1) obtain old' where "old = old' @ [LF]" by (metis append_butlast_last_id)
  then show ?thesis
    using readlines_after_break[of old' "record @ [LF]"] assms(2,3)
    by (simp add: readlines_one_line)
qed

text \<open>
  \<^verbatim>\<open>log_undo_operation\<close> writes its record at the end of the journal: when the journal
  ends with a line break, or is empty or absent, the record is read back as the last line.
\<close>

lemma log_undo_operation_appends:
  assumes "undo_log s = None \<or> undo_log s = Some [] \<or> (\<exists>old. undo_log s = Some (old @ [LF]))"
    and "LF \<notin> set (upper a @ ''|'' @ path_str src @ ''|'' @ path_str dst)"
    and "CR \<notin> set (upper a @ ''|'' @ path_str src @ ''|'' @ path_str dst)"
  shows "\<exists>text. undo_log (log_undo_operation a src dst s) = Some text \<and>
           readlines text
             = (case undo_log s of None \<Rightarrow> [] | Some old \<Rightarrow> readlines old)
               @ [upper a @ ''|'' @ path_str src @ ''|'' @ path_str dst @ [LF]]"
proof -
  let ?r = "upper a @ ''|'' @ path_str src @ ''|'' @ path_str dst"
  let ?old = "case undo_log s of None \<Rightarrow> [] | Some old \<Rightarrow> old"
  have u: "undo_log (log_undo_operation a src dst s) = Some (?old @ ?r @ [LF])"
    by (simp add: log_undo_operation_def)
  have "?old = [] \<or> last ?old = LF" using assms(1) by (elim disjE exE) simp_all
  from readlines_appended_record[OF this assms(2,3)]
  have "readlines (?old @ ?r @ [LF]) = readlines ?old @ [?r @ [LF]]" .
  moreover have "readlines ?old = (case undo_log s of None \<Rightarrow> [] | Some old \<Rightarrow> readlines old)"
    by (simp add: readlines_def split: option.splits)
  ultimately show ?thesis using u by simp
qed

text \<open>
  Each line of the replay adds one to \<open>succeeded\<close>, or one to \<open>failed\<close>, or one warning to
  the log.
\<close>

lemma warnings_logger:
  "warnings (logger l m s) = warnings s + (if l = WARNING then 1 else 0)"
  by (simp add: warnings_def logger_def)

lemma warnings_fsys_update: "warnings (s\<lparr>fsys := fs\<rparr>) = warnings s"
  by (simp add: warnings_def)

lemma undo_lines_skip:
  assumes "split_on CHR ''|'' (strip line) = [a, src, dst]" and "\<not> exists (fsys s) (Path dst)"
  shows "undo_lines (line # rest) su fa s
           = undo_lines rest su fa (logger WARNING (Undo_skip (Path dst)) s)"
  using assms by (simp add: Let_def)

lemma undo_lines_tally:
  "undo_lines ls su fa s = (su', fa', s') \<Longrightarrow>
     su' + fa' + warnings s' = su + fa + warnings s + length ls"
proof (induction ls arbitrary: su fa s)
  case Nil
  then show ?case by simp
next
  case (Cons line rest)
  show ?case
  proof (cases "\<exists>a src dst. split_on CHR ''|'' (strip line) = [a, src, dst]")
    case False
    then have "undo_lines (line # rest) su fa s
                 = undo_lines rest su (fa + 1) (logger ERROR (Undo_failed (strip line)) s)"
      by (auto split: list.splits)
    with Cons.prems Cons.IH[of su "fa + 1" "logger ERROR (Undo_failed (strip line)) s"]
    show ?thesis by (simp add: warnings_logger)
  next
    case True
    then obtain a src dst where p: "split_on CHR ''|'' (strip line) = [a, src, dst]" by blast
    show ?thesis
    proof (cases "exists (fsys s) (Path dst)")
      case False
      with p Cons.prems Cons.IH[of su fa "logger WARNING (Undo_skip (Path dst)) s"]
      show ?thesis by (simp add: undo_lines_skip warnings_logger)
    next
      case True
      let ?s1 = "logger INFO (Undo_moving (Path dst) (parent (Path src))) s"
      show ?thesis
      proof (cases "move (fsys ?s1) (Path dst) (Path src)")
        case (Inr fs')
        with p True Cons.prems Cons.IH[of "su + 1" fa "?s1\<lparr>fsys := fs'\<rparr>"]
        show ?thesis by (simp add: Let_def warnings_logger warnings_fsys_update)
      next
        case (Inl e)
        with p True Cons.prems
          Cons.IH[of su "fa + 1" "logger ERROR (Undo_failed (strip line)) ?s1"]
        show ?thesis by (simp add: Let_def warnings_logger)
      qed
    qed
  qed
qed

subsection \<open>Classification by type\<close>




subsection \<open>Rename policy\<close>

text \<open>
  C4, as the code has it. \<^verbatim>\<open>resolve_conflict\<close> under \<^verbatim>\<open>rename\<close> reads the file system and
  changes nothing, so it reserves no name. Resolving an existing destination twice in
  sequence, with no file made in between, gives \<^verbatim>\<open>name (1).ext\<close> both times (when that
  path is free). The second resolution gives \<^verbatim>\<open>name (2).ext\<close> once something has been
  made at \<^verbatim>\<open>name (1).ext\<close> in between, and \<^verbatim>\<open>name (2).ext\<close> is free.
\<close>

theorem rename_twice_same_name:
  assumes "exists (fsys s) p"
    and "\<not> exists (fsys s) (join (parent p) (stem p @ '' (1)'' @ suffix_of p))"
  shows "(case resolve_conflict p ''rename'' s of
            (first, s1) \<Rightarrow>
              (case resolve_conflict p ''rename'' s1 of
                 (second, s2) \<Rightarrow>
                   first = Inr (Some (join (parent p) (stem p @ '' (1)'' @ suffix_of p))) \<and>
                   second = first \<and> s1 = s \<and> s2 = s)) \<and>
         (\<not> exists (fsys s) (join (parent p) (stem p @ '' (2)'' @ suffix_of p)) \<longrightarrow>
          fst (resolve_conflict p ''rename''
                 (s\<lparr>fsys := fmupd (join (parent p) (stem p @ '' (1)'' @ suffix_of p)) n (fsys s)\<rparr>))
            = Inr (Some (join (parent p) (stem p @ '' (2)'' @ suffix_of p))))"
proof -
  let ?c1 = "join (parent p) (stem p @ '' (1)'' @ suffix_of p)"
  let ?c2 = "join (parent p) (stem p @ '' (2)'' @ suffix_of p)"
  let ?fs' = "fmupd ?c1 n (fsys s)"
  have r: "resolve_conflict p ''rename'' s = (Inr (Some ?c1), s)"
    using assms by (simp add: resolve_conflict_rename unique_path_first)
  have c1: "?c1 \<noteq> []" "?c1 \<noteq> ?c2" by (simp_all add: join_def)
  {
    assume c2: "\<not> exists (fsys s) ?c2"
    have e: "exists ?fs' p" using assms(1) c1 by (simp add: exists_def node_at_fmupd)
    have e1: "exists ?fs' ?c1" using c1 by (simp add: exists_def node_at_fmupd)
    have e2: "\<not> exists ?fs' ?c2" using c2 c1 by (simp add: exists_def node_at_fmupd)
    have "unique_path ?fs' p = ?c2" using e e1 e2 by (rule unique_path_second)
    with e have "fst (resolve_conflict p ''rename'' (s\<lparr>fsys := ?fs'\<rparr>)) = Inr (Some ?c2)"
      by (simp add: resolve_conflict_rename)
  }
  with r show ?thesis by simp
qed

text \<open>In the example \<^verbatim>\<open>/out/Documents/a.txt\<close> exists and no numbered name is taken.\<close>

theorem rename_twice_same_name_witness:
  "exists (fsys ex_state) [''out'', ''Documents'', ''a.txt''] \<and>
   resolve_conflict [''out'', ''Documents'', ''a.txt''] ''rename'' ex_state
     = (Inr (Some [''out'', ''Documents'', ''a (1).txt'']), ex_state) \<and>
   fst (resolve_conflict [''out'', ''Documents'', ''a.txt''] ''rename''
          (ex_state\<lparr>fsys := fmupd [''out'', ''Documents'', ''a (1).txt''] (File ''new'' 9)
                                 (fsys ex_state)\<rparr>))
     = Inr (Some [''out'', ''Documents'', ''a (2).txt''])"
proof -
  let ?p = "[''out'', ''Documents'', ''a.txt'']"
  have c: "join (parent ?p) (stem ?p @ '' (1)'' @ suffix_of ?p) = [''out'', ''Documents'', ''a (1).txt'']"
    "join (parent ?p) (stem ?p @ '' (2)'' @ suffix_of ?p) = [''out'', ''Documents'', ''a (2).txt'']"
    by (simp_all add: path_defs)
  have e: "exists (fsys ex_state) ?p"
    "\<not> exists (fsys ex_state) (join (parent ?p) (stem ?p @ '' (1)'' @ suffix_of ?p))"
    "\<not> exists (fsys ex_state) (join (parent ?p) (stem ?p @ '' (2)'' @ suffix_of ?p))"
    unfolding c by (simp_all add: ex_state_def ex_fs_def exists_def node_at_def)
  from rename_twice_same_name[OF e(1,2), of "File ''new'' 9"] e(1,3)
  show ?thesis unfolding c by (auto split: prod.splits)
qed

text \<open>
  As C4 is stated, the second resolution yields \<^verbatim>\<open>a (2).txt\<close>. It yields \<^verbatim>\<open>a (1).txt\<close>
  again.
\<close>

theorem rename_twice_counterexample:
  "resolve_conflict [''out'', ''Documents'', ''a.txt''] ''rename'' ex_state
     = (Inr (Some [''out'', ''Documents'', ''a (1).txt'']), ex_state) \<and>
   fst (resolve_conflict [''out'', ''Documents'', ''a.txt''] ''rename''
          (snd (resolve_conflict [''out'', ''Documents'', ''a.txt''] ''rename'' ex_state)))
     = Inr (Some [''out'', ''Documents'', ''a (1).txt'']) \<and>
   fst (resolve_conflict [''out'', ''Documents'', ''a.txt''] ''rename''
          (snd (resolve_conflict [''out'', ''Documents'', ''a.txt''] ''rename'' ex_state)))
     \<noteq> Inr (Some [''out'', ''Documents'', ''a (2).txt''])"
  by (simp add: run_defs ex_state_def ex_fs_def)

subsection \<open>Counters of the loop\<close>

lemma count_result_total: "total (count_result r st) = total st"
  by (simp add: count_result_def Let_def split: option.split bool.split)

lemma count_result_processed: "processed (count_result r st) = processed st + 1"
  by (simp add: count_result_def Let_def split: option.split bool.split)

lemma count_result_sum:
  "succeeded (count_result r st) + failed (count_result r st) + skipped (count_result r st)
     = succeeded st + failed st + skipped st + 1"
  by (simp add: count_result_def Let_def split: option.split bool.split)

text \<open>
  What the loop adds to the counters: nothing to \<open>total\<close>, at most one per file to
  \<open>processed\<close>, and to the three outcome counters together as much as to \<open>processed\<close>.
\<close>

lemma process_files_counts:
  "process_files f kw ei items idx st s = (Inr st', s') \<Longrightarrow>
     total st' = total st \<and>
     processed st' \<le> processed st + length items \<and>
     succeeded st' + failed st' + skipped st' + processed st
       = processed st' + succeeded st + failed st + skipped st"
proof (induction items arbitrary: idx st s)
  case Nil
  then show ?case by simp
next
  case (Cons item items)
  show ?case
  proof (cases "is_cancelled kw idx")
    case True
    with Cons.prems show ?thesis by simp
  next
    case False
    with Cons.prems obtain r s1 where
      step: "f item (dest kw) ei kw s = (Inr r, s1)" and
      rest: "process_files f kw ei items (idx + 1) (count_result r st) s1 = (Inr st', s')"
      by (auto split: prod.splits sum.splits)
    from Cons.IH[OF rest] show ?thesis
      using count_result_sum[of r st]
      by (simp add: count_result_total count_result_processed)
  qed
qed

subsection \<open>Exceptions that leave the loop\<close>






subsection \<open>Paths that a transfer leaves alone\<close>

text \<open>
  The transfer of a regular file changes the file itself and paths from the destination
  root downwards; the directories it makes are at paths where nothing was. Every other
  existing path keeps its node.
\<close>

lemma parent_join: "parent (join p x) = p"
  by (simp add: parent_def join_def)

lemma join_not_root: "join p x \<noteq> []"
  by (simp add: join_def)

lemma prefix_join: "prefix d p \<Longrightarrow> prefix d (join p x)"
  by (simp add: join_def)

lemma prefix_of_parent: "prefix d (parent p) \<Longrightarrow> prefix d p"
  using prefix_parent by (rule prefix_order.trans[rotated])

lemma unique_path_loop_shape:
  "unique_path_loop fs pa st su i c = c \<or> (\<exists>x. unique_path_loop fs pa st su i c = join pa x)"
proof (induction fs pa st su i c rule: unique_path_loop.induct)
  case (1 fs pa st su i c)
  show ?case
  proof (cases "exists fs c")
    case False
    then show ?thesis by (simp add: unique_path_loop_stop)
  next
    case True
    with "1.IH" show ?thesis by (auto simp: unique_path_loop_step[OF True])
  qed
qed

lemma unique_path_parent: "parent (unique_path fs p) = parent p"
  using unique_path_loop_shape[of fs "parent p" "stem p" "suffix_of p" 1 p]
  by (auto simp: unique_path_def parent_join)

lemma unique_path_not_root: "p \<noteq> [] \<Longrightarrow> unique_path fs p \<noteq> []"
  using unique_path_loop_shape[of fs "parent p" "stem p" "suffix_of p" 1 p]
  by (auto simp: unique_path_def join_not_root)

lemma resolve_conflict_frame:
  assumes "resolve_conflict dfile pol s = (r, s')" "q \<noteq> dfile"
  shows "node_at (fsys s') q = node_at (fsys s) q"
proof (cases "is_file (fsys s) dfile")
  case True
  then have "dfile \<noteq> []" by (rule is_file_not_root)
  with assms True show ?thesis
    by (auto simp: resolve_conflict_def os_unlink_def logger_def node_at_fmdrop
          split: if_splits sum.splits)
next
  case False
  with assms show ?thesis
    by (auto simp: resolve_conflict_def split: if_splits)
qed

lemma resolve_conflict_final:
  assumes "resolve_conflict dfile pol s = (Inr (Some final), s')" "dfile \<noteq> []"
  shows "parent final = parent dfile \<and> final \<noteq> []"
  using assms
  by (auto simp: resolve_conflict_def unique_path_parent unique_path_not_root
        split: if_splits sum.splits)

lemma do_transfer_frame:
  assumes f: "is_file (fsys s) src" and t: "do_transfer src dst a dr s = (ok, s')"
    and q: "q \<noteq> src" "\<not> prefix dst q" "exists (fsys s) q"
  shows "node_at (fsys s') q = node_at (fsys s) q"
proof (cases "mkdir (fsys s) (parent dst)")
  case (Inl e)
  with t show ?thesis by (auto simp: do_transfer_def logger_def)
next
  case (Inr fs1)
  from q(3) obtain n where n: "node_at (fsys s) q = Some n" by (auto simp: exists_def)
  have q1: "node_at fs1 q = node_at (fsys s) q"
    using mkdir_keeps_node[OF Inr n] n by simp
  from f obtain c m where "node_at (fsys s) src = Some (File c m)" by (auto simp: is_file_iff)
  from mkdir_keeps_node[OF Inr this] have f1: "is_file fs1 src" by (auto simp: is_file_iff)
  show ?thesis
  proof (cases dr)
    case True
    with t Inr q1 show ?thesis by (auto simp: do_transfer_def Let_def logger_def)
  next
    case False
    let ?op = "if a = ''move'' then move fs1 src dst else copy2 fs1 src dst"
    show ?thesis
    proof (cases ?op)
      case (Inl e)
      with t Inr False q1 show ?thesis by (auto simp: do_transfer_def Let_def logger_def)
    next
      case op: (Inr fs2)
      have "node_at fs2 q = node_at fs1 q"
      proof (cases "a = ''move''")
        case True
        with op have "move fs1 src dst = Inr fs2" by simp
        from move_file_frame[OF f1 this q(1,2)] show ?thesis .
      next
        case False
        with op have "copy2 fs1 src dst = Inr fs2" by simp
        from copy2_frame[OF this q(2)] show ?thesis .
      qed
      moreover from t Inr False op have "fsys s' = fs2"
        by (auto simp: do_transfer_def Let_def logger_def log_undo_operation_def)
      ultimately show ?thesis using q1 by simp
    qed
  qed
qed

lemma resolve_and_transfer_frame:
  assumes f: "is_file (fsys s) file" and nf: "\<not> prefix d file"
    and d: "prefix d (parent dfile)" "dfile \<noteq> []"
    and t: "resolve_and_transfer file dfile kw s = (r, s')"
    and q: "q \<noteq> file" "\<not> prefix d q" "exists (fsys s) q"
  shows "node_at (fsys s') q = node_at (fsys s) q"
proof -
  obtain r1 s1 where rc: "resolve_conflict dfile (conflict_policy kw) s = (r1, s1)"
    by (cases "resolve_conflict dfile (conflict_policy kw) s")
  have pd: "prefix d dfile" using d(1) by (rule prefix_of_parent)
  with q(2) nf have ne: "q \<noteq> dfile" "file \<noteq> dfile" by auto
  have q1: "node_at (fsys s1) q = node_at (fsys s) q" using rc ne(1) by (rule resolve_conflict_frame)
  have "node_at (fsys s1) file = node_at (fsys s) file" using rc ne(2) by (rule resolve_conflict_frame)
  with f have f1: "is_file (fsys s1) file" by (simp add: is_file_def)
  show ?thesis
  proof (cases r1)
    case (Inl e)
    with t rc q1 show ?thesis by (simp add: resolve_and_transfer_def)
  next
    case (Inr fo)
    show ?thesis
    proof (cases fo)
      case None
      with t rc Inr q1 show ?thesis by (simp add: resolve_and_transfer_def)
    next
      case (Some final)
      with rc Inr have "resolve_conflict dfile (conflict_policy kw) s = (Inr (Some final), s1)" by simp
      from resolve_conflict_final[OF this d(2)] d(1) have "prefix d (parent final)" by simp
      then have "prefix d final" by (rule prefix_of_parent)
      with q(2) have nq: "\<not> prefix final q" by (meson prefix_order.trans)
      obtain ok s2 where dt: "do_transfer file final (action kw) (dry_run kw) s1 = (ok, s2)"
        by (cases "do_transfer file final (action kw) (dry_run kw) s1")
      have "exists (fsys s1) q" using q(3) q1 by (simp add: exists_def)
      from do_transfer_frame[OF f1 dt q(1) nq this] have "node_at (fsys s2) q = node_at (fsys s1) q" .
      moreover from t rc Inr Some dt have "s' = s2" by (simp add: resolve_and_transfer_def)
      ultimately show ?thesis using q1 by simp
    qed
  qed
qed

subsection \<open>The loop and the cancellation flag\<close>

lemma process_files_cancel:
  "\<forall>k. idx \<le> k \<and> k < idx + n \<longrightarrow> \<not> is_cancelled kw k \<Longrightarrow> is_cancelled kw (idx + n) \<Longrightarrow>
   n < length items \<Longrightarrow>
   process_files f kw ei items idx st s
     = (case process_files f kw ei (take n items) idx st s of
          (Inl e, s') \<Rightarrow> (Inl e, s')
        | (Inr st', s') \<Rightarrow> (Inr st', logger INFO Cancellation_requested s'))"
proof (induction n arbitrary: items idx st s)
  case 0
  then obtain item rest where "items = item # rest" by (cases items) auto
  with 0 show ?case by simp
next
  case (Suc n)
  then obtain item rest where items: "items = item # rest" by (cases items) auto
  from Suc.prems(1) have nc: "\<not> is_cancelled kw idx" by auto
  have ih: "process_files f kw ei rest (Suc idx) st1 s1
     = (case process_files f kw ei (take n rest) (Suc idx) st1 s1 of
          (Inl e, s') \<Rightarrow> (Inl e, s')
        | (Inr st', s') \<Rightarrow> (Inr st', logger INFO Cancellation_requested s'))" for st1 s1
    using Suc.prems items by (intro Suc.IH[of "Suc idx"]) auto
  show ?case unfolding items using nc
    by (simp add: ih split: prod.splits sum.splits)
qed

lemma process_files_no_cancel:
  "\<forall>k. idx \<le> k \<and> k < idx + length items \<longrightarrow> \<not> is_cancelled kw k \<Longrightarrow>
   process_files f kw ei items idx st s = (Inr st', s') \<Longrightarrow>
   processed st' = processed st + length items"
proof (induction items arbitrary: idx st s)
  case Nil
  then show ?case by simp
next
  case (Cons item items)
  from Cons.prems(1) have nc: "\<not> is_cancelled kw idx" by auto
  with Cons.prems(2) obtain r s1 where
    rest: "process_files f kw ei items (idx + 1) (count_result r st) s1 = (Inr st', s')"
    by (auto split: prod.splits sum.splits)
  have "\<forall>k. idx + 1 \<le> k \<and> k < idx + 1 + length items \<longrightarrow> \<not> is_cancelled kw k"
    using Cons.prems(1) by auto
  from Cons.IH[OF this rest] show ?case by (simp add: count_result_processed)
qed





subsection \<open>An unknown conflict policy inside the loop\<close>




lemma process_files_raise:
  "\<not> is_cancelled kw idx \<Longrightarrow> f item (dest kw) ei kw s = (Inl e, s') \<Longrightarrow>
     process_files f kw ei (item # items) idx st s = (Inl e, s')"
  by simp

lemma process_files_failed:
  "\<not> is_cancelled kw idx \<Longrightarrow> f item (dest kw) ei kw s = (Inr (Some False), s') \<Longrightarrow>
     process_files f kw ei (item # items) idx st s
       = process_files f kw ei items (idx + 1)
           (st\<lparr>processed := processed st + 1, failed := failed st + 1\<rparr>) s'"
  by (simp add: count_result_def Let_def)


















subsection \<open>Skip policy\<close>

lemma resolve_conflict_skip:
  "exists (fsys s) d \<Longrightarrow> resolve_conflict d ''skip'' s = (Inr None, s)"
  by (simp add: resolve_conflict_def)

text \<open>
  C5. Let the policy be \<^verbatim>\<open>skip\<close> and let the candidate destination \<open>d\<close>, which the organizer
  hands to the resolver, exist. Then \<^verbatim>\<open>resolve_conflict\<close> returns \<^verbatim>\<open>None\<close>, and so does the
  organizer, both with the state they were given: source, destination (its bytes and
  its modification time) and everything else are as before. The loop of
  \<^verbatim>\<open>process_directory\<close> adds one to \<open>processed\<close> and one to \<open>skipped\<close>, nothing to \<open>failed\<close>, and
  goes on with the next file.
\<close>

theorem skip_leaves_files_and_counts_skipped:
  assumes "exists (fsys s) d" and "conflict_policy kw = ''skip''"
    and "organizer_func item (dest kw) ei kw s = resolve_and_transfer item d kw s"
    and "\<not> is_cancelled kw idx"
  shows "resolve_conflict d (conflict_policy kw) s = (Inr None, s) \<and>
         organizer_func item (dest kw) ei kw s = (Inr None, s) \<and>
         process_files organizer_func kw ei (item # items) idx st s
           = process_files organizer_func kw ei items (idx + 1)
               (st\<lparr>processed := processed st + 1, skipped := skipped st + 1\<rparr>) s"
proof -
  from assms(1,2) have r: "resolve_conflict d (conflict_policy kw) s = (Inr None, s)"
    by (simp add: resolve_conflict_skip)
  then have o: "organizer_func item (dest kw) ei kw s = (Inr None, s)"
    using assms(3) by (simp add: resolve_and_transfer_def)
  have "count_result None st = st\<lparr>processed := processed st + 1, skipped := skipped st + 1\<rparr>"
    by (simp add: count_result_def Let_def)
  with r o assms(4) show ?thesis by simp
qed

text \<open>In the example \<^verbatim>\<open>/out/Documents/a.txt\<close> exists, and \<^verbatim>\<open>/src/a.txt\<close> is skipped.\<close>

theorem skip_leaves_files_and_counts_skipped_witness:
  "exists (fsys ex_state) [''out'', ''Documents'', ''a.txt''] \<and>
   organize_by_type [''src'', ''a.txt''] (dest ex_kwargs) (build_ext_index (categories ex_kwargs))
       ex_kwargs ex_state = (Inr None, ex_state) \<and>
   process_files organize_by_type ex_kwargs (build_ext_index (categories ex_kwargs))
       [[''src'', ''a.txt'']] 1
       \<lparr>total = 1, succeeded = 0, failed = 0, processed = 0, skipped = 0\<rparr> ex_state
     = (Inr \<lparr>total = 1, succeeded = 0, failed = 0, processed = 1, skipped = 1\<rparr>, ex_state)"
proof -
  let ?d = "[''out'', ''Documents'', ''a.txt'']"
  let ?ei = "build_ext_index (categories ex_kwargs)"
  have e: "exists (fsys ex_state) ?d"
    by (simp add: ex_state_def ex_fs_def exists_def node_at_def)
  have p: "conflict_policy ex_kwargs = ''skip''" by (simp add: ex_kwargs_def)
  have o: "organize_by_type [''src'', ''a.txt''] (dest ex_kwargs) ?ei ex_kwargs ex_state
             = resolve_and_transfer [''src'', ''a.txt''] ?d ex_kwargs ex_state"
    by (simp add: organize_by_type_def ex_kwargs_def build_ext_index_def string_defs path_defs Let_def)
  have c: "\<not> is_cancelled ex_kwargs 1" by (simp add: is_cancelled_def ex_kwargs_def)
  from skip_leaves_files_and_counts_skipped[where organizer_func = organize_by_type
         and item = "[''src'', ''a.txt'']" and ei = ?ei and kw = ex_kwargs and s = ex_state
         and d = ?d and idx = 1 and items = "[]"
         and st = "\<lparr>total = 1, succeeded = 0, failed = 0, processed = 0, skipped = 0\<rparr>",
         OF e p o c] e
  show ?thesis by simp
qed

subsection \<open>Dry run\<close>




subsection \<open>Order of the undo replay\<close>

text \<open>
  C7. \<^verbatim>\<open>perform_undo\<close> goes through the lines of the journal from the last to the first.
  However the lines that were read are divided into an earlier and a later part, every
  line of the later part is processed, in reverse order, before any line of the earlier
  part, and the earlier part starts from the state and the counters that the later part
  left.
\<close>

theorem perform_undo_latest_first:
  assumes "undo_log s = Some text" and "readlines text = earlier @ later"
  shows "perform_undo s =
           (case undo_lines (rev later) 0 0 s of
              (su1, fa1, s1) \<Rightarrow>
                (case undo_lines (rev earlier) su1 fa1 s1 of
                   (su2, fa2, s2) \<Rightarrow>
                     (\<lparr>total = length earlier + length later, succeeded = su2, failed = fa2\<rparr>,
                      clear_undo_log s2)))"
  using assms
  by (simp add: perform_undo_def Let_def undo_lines_append split: prod.splits)

text \<open>
  In the example a file was moved from \<^verbatim>\<open>/src\<close> to \<^verbatim>\<open>/mid\<close> and then from \<^verbatim>\<open>/mid\<close> to
  \<^verbatim>\<open>/out\<close>. The replay moves it from \<^verbatim>\<open>/out\<close> to \<^verbatim>\<open>/mid\<close> first and then to \<^verbatim>\<open>/src\<close>.
\<close>

theorem perform_undo_latest_first_witness:
  "undo_log ex_chain_state
     = Some (''MOVE|/src/f.txt|/mid/f.txt'' @ [LF] @ ''MOVE|/mid/f.txt|/out/f.txt'' @ [LF]) \<and>
   readlines (''MOVE|/src/f.txt|/mid/f.txt'' @ [LF] @ ''MOVE|/mid/f.txt|/out/f.txt'' @ [LF])
     = [''MOVE|/src/f.txt|/mid/f.txt'' @ [LF]] @ [''MOVE|/mid/f.txt|/out/f.txt'' @ [LF]] \<and>
   fst (perform_undo ex_chain_state) = \<lparr>total = 2, succeeded = 2, failed = 0\<rparr> \<and>
   node_at (fsys (snd (perform_undo ex_chain_state))) [''src'', ''f.txt''] = Some (File ''data'' 3) \<and>
   logged (snd (perform_undo ex_chain_state))
     = [(INFO, Undo_moving [''out'', ''f.txt''] [''mid'']),
        (INFO, Undo_moving [''mid'', ''f.txt''] [''src''])]"
proof -
  let ?l1 = "''MOVE|/src/f.txt|/mid/f.txt'' @ [LF]"
  let ?l2 = "''MOVE|/mid/f.txt|/out/f.txt'' @ [LF]"
  have j: "undo_log ex_chain_state = Some (?l1 @ ?l2)"
    by (simp add: ex_chain_state_def)
  have r: "readlines (?l1 @ ?l2) = [?l1] @ [?l2]"
    by (simp add: readlines_def LF_def CR_def)
  have "perform_undo ex_chain_state =
          (\<lparr>total = 2, succeeded = 2, failed = 0\<rparr>,
           \<lparr>fsys = fmupd [''src'', ''f.txt''] (File ''data'' 3)
                     (fmdrop [''mid'', ''f.txt'']
                       (fmupd [''mid'', ''f.txt''] (File ''data'' 3)
                         (fmdrop [''out'', ''f.txt''] (fsys ex_chain_state)))),
            undo_log = None,
            logged = [(INFO, Undo_moving [''out'', ''f.txt''] [''mid'']),
                      (INFO, Undo_moving [''mid'', ''f.txt''] [''src''])]\<rparr>)"
    unfolding perform_undo_latest_first[OF j r]
    by (simp add: ex_chain_state_def string_defs path_defs fs_defs logger_def clear_undo_log_def Let_def)
  with j r show ?thesis by (simp add: node_at_def)
qed

subsection \<open>Journal lines whose destination is gone\<close>

text \<open>
  C8, as the code has it. A journal line of three fields whose recorded destination does
  not exist is skipped with a warning: the loop goes on with \<open>succeeded\<close> and \<open>failed\<close> as
  they were and with a state that differs by that warning only. The result of
  \<^verbatim>\<open>perform_undo\<close> has the three entries \<open>total\<close>, \<open>succeeded\<close> and \<open>failed\<close> and no tally of
  skipped lines: a skipped line is counted in \<open>total\<close>, which is the number of lines read,
  and \<open>total\<close> is \<open>succeeded\<close> plus \<open>failed\<close> plus the number of warnings that the replay
  logged.
\<close>

theorem undo_skips_missing_destination:
  "(split_on CHR ''|'' (strip line) = [a, src, dst] \<and> \<not> exists (fsys s) (Path dst) \<longrightarrow>
      undo_lines (line # rest) su fa s
        = undo_lines rest su fa (logger WARNING (Undo_skip (Path dst)) s)) \<and>
   (perform_undo s = (r, s') \<longrightarrow>
      total r + warnings s = succeeded r + failed r + warnings s' \<and>
      (\<forall>text. undo_log s = Some text \<longrightarrow> total r = length (readlines text)))"
proof (intro conjI impI)
  assume "split_on CHR ''|'' (strip line) = [a, src, dst] \<and> \<not> exists (fsys s) (Path dst)"
  then show "undo_lines (line # rest) su fa s
               = undo_lines rest su fa (logger WARNING (Undo_skip (Path dst)) s)"
    by (simp add: undo_lines_skip)
next
  assume run: "perform_undo s = (r, s')"
  show "total r + warnings s = succeeded r + failed r + warnings s'"
  proof (cases "undo_log s")
    case None
    with run show ?thesis by (auto simp: perform_undo_def warnings_logger)
  next
    case (Some journal)
    obtain su fa s1 where u: "undo_lines (rev (readlines journal)) 0 0 s = (su, fa, s1)"
      by (metis prod_cases3)
    with run Some have r: "r = \<lparr>total = length (readlines journal), succeeded = su, failed = fa\<rparr>"
      and s': "s' = clear_undo_log s1"
      by (auto simp: perform_undo_def Let_def)
    have "warnings s' = warnings s1" unfolding s' by (simp add: clear_undo_log_def warnings_def)
    with undo_lines_tally[OF u] r show ?thesis by simp
  qed
next
  assume run: "perform_undo s = (r, s')"
  show "\<forall>text. undo_log s = Some text \<longrightarrow> total r = length (readlines text)"
    using run by (auto simp: perform_undo_def Let_def split: prod.splits)
qed

text \<open>
  In the example the journal has a line that is undone, a line whose destination
  \<^verbatim>\<open>/out/b.jpg\<close> is gone, and a line that is no record.
\<close>

theorem undo_skips_missing_destination_witness:
  "split_on CHR ''|'' (strip (''MOVE|/src/b.jpg|/out/b.jpg'' @ [LF]))
     = [''MOVE'', ''/src/b.jpg'', ''/out/b.jpg''] \<and>
   \<not> exists (fsys ex_gone_state) (Path ''/out/b.jpg'') \<and>
   undo_lines [''MOVE|/src/b.jpg|/out/b.jpg'' @ [LF]] 0 0 ex_gone_state
     = (0, 0, logger WARNING (Undo_skip [''out'', ''b.jpg'']) ex_gone_state) \<and>
   fst (perform_undo ex_gone_state) = \<lparr>total = 3, succeeded = 1, failed = 1\<rparr> \<and>
   warnings ex_gone_state = 0 \<and>
   warnings (snd (perform_undo ex_gone_state)) = 1 \<and>
   (3::nat) + 0 = 1 + 1 + 1"
proof -
  let ?line = "''MOVE|/src/b.jpg|/out/b.jpg'' @ [LF]"
  have p: "split_on CHR ''|'' (strip ?line) = [''MOVE'', ''/src/b.jpg'', ''/out/b.jpg'']"
    by (simp add: string_defs)
  have q: "Path ''/out/b.jpg'' = [''out'', ''b.jpg'']" by (simp add: Path_def)
  have e: "\<not> exists (fsys ex_gone_state) (Path ''/out/b.jpg'')"
    unfolding q by (simp add: ex_gone_state_def exists_def node_at_def)
  have r: "fst (perform_undo ex_gone_state) = \<lparr>total = 3, succeeded = 1, failed = 1\<rparr>"
    by (simp add: run_defs ex_gone_state_def)
  have w0: "warnings ex_gone_state = 0" by (simp add: warnings_def ex_gone_state_def)
  have run: "perform_undo ex_gone_state = (fst (perform_undo ex_gone_state), snd (perform_undo ex_gone_state))"
    by simp
  from undo_skips_missing_destination[of ?line "''MOVE''" "''/src/b.jpg''" "''/out/b.jpg''"
         ex_gone_state "[]" 0 0 "fst (perform_undo ex_gone_state)" "snd (perform_undo ex_gone_state)"]
    p e run
  have "undo_lines [?line] 0 0 ex_gone_state
          = undo_lines [] 0 0 (logger WARNING (Undo_skip (Path ''/out/b.jpg'')) ex_gone_state)"
    and "total (fst (perform_undo ex_gone_state)) + warnings ex_gone_state
          = succeeded (fst (perform_undo ex_gone_state)) + failed (fst (perform_undo ex_gone_state))
            + warnings (snd (perform_undo ex_gone_state))"
    by blast+
  with p e r w0 q show ?thesis by simp
qed

text \<open>
  As C8 is stated, the skipped line is tallied separately in the result. The result of
  the example is \<open>total = 3\<close>, \<open>succeeded = 1\<close>, \<open>failed = 1\<close> and nothing else: the skipped
  line shows in the log, and in the result only as the difference.
\<close>

theorem undo_skip_not_tallied_counterexample:
  "perform_undo ex_gone_state
     = (\<lparr>total = 3, succeeded = 1, failed = 1\<rparr>,
        \<lparr>fsys = fmupd [''src'', ''a.txt''] (File ''hello'' 5)
                   (fmdrop [''out'', ''a.txt''] (fsys ex_gone_state)),
         undo_log = None,
         logged = [(ERROR, Undo_failed ''no record''),
                   (WARNING, Undo_skip [''out'', ''b.jpg'']),
                   (INFO, Undo_moving [''out'', ''a.txt''] [''src''])]\<rparr>)"
  by (simp add: run_defs ex_gone_state_def)

subsection \<open>Fatal errors\<close>




subsection \<open>Counters of a run\<close>

text \<open>
  C10. Whenever \<^verbatim>\<open>process_directory\<close> returns its statistics, \<open>processed\<close> is the sum of
  \<open>succeeded\<close>, \<open>failed\<close> and \<open>skipped\<close>, it is at most \<open>total\<close>, and \<open>total\<close> is the number of
  enumerated files.
\<close>

theorem process_directory_counters:
  assumes "process_directory tz kw s = (Inr st, s')"
  shows "processed st = succeeded st + failed st + skipped st \<and>
         processed st \<le> total st \<and> total st = length (files kw)"
proof -
  from assms obtain f ei where
    "process_files f kw ei (files kw) 1
       \<lparr>total = length (files kw), succeeded = 0, failed = 0, processed = 0, skipped = 0\<rparr> s
     = (Inr st, s')"
    by (auto simp: process_directory_def Let_def split: option.splits)
  from process_files_counts[OF this] show ?thesis by simp
qed

text \<open>
  The example run skips \<^verbatim>\<open>a.txt\<close>, whose destination exists, and moves \<^verbatim>\<open>b.jpg\<close>.
\<close>

theorem process_directory_counters_witness:
  "fst (process_directory (\<lambda>t. None) ex_kwargs ex_state)
     = Inr \<lparr>total = 2, succeeded = 1, failed = 0, processed = 2, skipped = 1\<rparr> \<and>
   (2::nat) = 1 + 0 + 1 \<and> (2::nat) \<le> 2 \<and> length (files ex_kwargs) = 2"
proof -
  let ?st = "\<lparr>total = 2, succeeded = 1, failed = 0, processed = 2, skipped = 1\<rparr>"
  have run: "fst (process_directory (\<lambda>t. None) ex_kwargs ex_state) = Inr ?st"
    by (simp add: run_defs ex_kwargs_def ex_state_def ex_fs_def)
  then have "process_directory (\<lambda>t. None) ex_kwargs ex_state
               = (Inr ?st, snd (process_directory (\<lambda>t. None) ex_kwargs ex_state))"
    by (metis prod.collapse)
  from process_directory_counters[OF this] run show ?thesis by simp
qed

end
